theory Spec2Isabelle
  imports Complex_Main "HOL-Library.AList" "HOL-Library.Log_Nat"
begin

section \<open>The parking lot model\<close>

text \<open>
  The source is \<^verbatim>\<open>The_Automated_Parking_Lot_System.py\<close>.
  The embedding follows the classes \<^verbatim>\<open>Vehicle\<close> and \<^verbatim>\<open>ParkingLot\<close> and the handlers
  \<^verbatim>\<open>quick_park\<close> and \<^verbatim>\<open>emergency_clear\<close> of \<^verbatim>\<open>AutomatedParkingLotSystem\<close>.

  \<^item> A \<^verbatim>\<open>datetime\<close> is an integer number of microseconds (its resolution); every
    \<^verbatim>\<open>datetime.now()\<close> of the source is an argument of the model.
  \<^item> A Python float is the real number it denotes, and every float operation of the
    source is the exact operation followed by \<open>fl\<close>, the rounding to the nearest double
    (53 significant bits, ties to even). Overflow and subnormal numbers are left out: the
    floats of the source are quotients and sums of time differences within the range of
    \<^verbatim>\<open>datetime\<close> and of fees, far inside the normal range.
  \<^item> The dictionary \<^verbatim>\<open>vehicles\<close> is an association list in insertion order, as a
    Python dict is: \<open>AList.update\<close> overwrites a present key in place and appends a new
    one, \<open>AList.delete\<close> is \<^verbatim>\<open>del\<close>.
  \<^item> A raised exception is the \<open>Inl\<close> of a sum; a method returns its result together
    with the object's state after the call, so that a mutation made before a raise is
    kept.
  \<^item> Vehicles are values. Every caller in the source builds a new \<^verbatim>\<open>Vehicle\<close> object
    just before \<^verbatim>\<open>park_vehicle\<close>, so no object is shared between two admissions.
\<close>

subsection \<open>Data\<close>

datatype VehicleType = CAR | BIKE | TRUCK | SUV

datatype error = ParkingLotFullError | ValueError | IndexError

type_synonym datetime = int

record Vehicle =
  vehicle_id :: string
  vehicle_type :: VehicleType
  owner_name :: string
  entry_time :: "datetime option"
  slot_number :: "int option"
  color :: string

record ParkingLot =
  capacity :: int
  slots :: "Vehicle option list"
  vehicles :: "(string \<times> Vehicle) list"
  hourly_rate :: real
  revenue :: real
  total_vehicles :: int

subsection \<open>Python list and range primitives\<close>

definition py_index :: "'a list \<Rightarrow> int \<Rightarrow> error + nat" where
  \<comment> \<open>the position an integer index denotes: negative indices count from the end\<close>
  "py_index xs i =
     (let n = int (length xs); j = (if i < 0 then n + i else i)
      in if 0 \<le> j \<and> j < n then Inr (nat j) else Inl IndexError)"

definition py_getitem :: "'a list \<Rightarrow> int \<Rightarrow> error + 'a" where
  "py_getitem xs i = (case py_index xs i of Inl e \<Rightarrow> Inl e | Inr j \<Rightarrow> Inr (xs ! j))"

definition py_setitem :: "'a list \<Rightarrow> int \<Rightarrow> 'a \<Rightarrow> error + 'a list" where
  "py_setitem xs i v = (case py_index xs i of Inl e \<Rightarrow> Inl e | Inr j \<Rightarrow> Inr (xs[j := v]))"

definition py_range :: "int \<Rightarrow> int list" where
  \<comment> \<open>\<^verbatim>\<open>range(n)\<close>, empty for \<open>n \<le> 0\<close>\<close>
  "py_range n = map int [0..<nat n]"

subsection \<open>Floats\<close>

definition expo :: "real \<Rightarrow> int" where
  \<comment> \<open>the binary exponent \<open>\<lfloor>log\<^sub>2 x\<rfloor>\<close> of a positive number\<close>
  "expo x = (if 1 \<le> x then bitlen \<lfloor>x\<rfloor> - 1 else - bitlen (\<lceil>1 / x\<rceil> - 1))"

definition round_even :: "real \<Rightarrow> int" where
  \<comment> \<open>the nearest integer, the even one of two that are equally near\<close>
  "round_even x =
     (let f = \<lfloor>x\<rfloor>; d = x - real_of_int f
      in if d < 1 / 2 then f else if 1 / 2 < d then f + 1 else if even f then f else f + 1)"

definition fl :: "real \<Rightarrow> real" where
  \<comment> \<open>the double nearest to \<open>x\<close>: a multiple of \<open>2 powi (expo \<bar>x\<bar> - 52)\<close>\<close>
  "fl x =
     (if x = 0 then 0
      else let u = 2 powi (expo \<bar>x\<bar> - 52)
           in sgn x * real_of_int (round_even (\<bar>x\<bar> / u)) * u)"

subsection \<open>Vehicle\<close>

definition Vehicle_init :: "string \<Rightarrow> VehicleType \<Rightarrow> string \<Rightarrow> string \<Rightarrow> Vehicle" where
  \<comment> \<open>the last argument is the colour that \<^verbatim>\<open>random.choice\<close> picks\<close>
  "Vehicle_init vid vtype owner col =
     \<lparr>vehicle_id = vid, vehicle_type = vtype, owner_name = owner,
      entry_time = None, slot_number = None, color = col\<rparr>"

definition total_seconds :: "int \<Rightarrow> real" where
  \<comment> \<open>\<^verbatim>\<open>timedelta.total_seconds()\<close>: the microseconds divided by \<open>10\<^sup>6\<close>, as a float\<close>
  "total_seconds d = fl (real_of_int d / 1000000)"

definition rates :: "VehicleType \<rightharpoonup> real" where
  "rates = [CAR \<mapsto> 2, BIKE \<mapsto> 1, TRUCK \<mapsto> 3, SUV \<mapsto> 5 / 2]"

definition rate_of :: "VehicleType \<Rightarrow> real" where
  \<comment> \<open>\<^verbatim>\<open>rates.get(self.vehicle_type, 2.0)\<close>\<close>
  "rate_of t = (case rates t of Some r \<Rightarrow> r | None \<Rightarrow> 2)"

definition floordiv :: "real \<Rightarrow> real \<Rightarrow> real" where
  \<comment> \<open>float \<^verbatim>\<open>//\<close>, used by the source with the divisor 1 only, where it is the floor
      and exact\<close>
  "floordiv x y = real_of_int \<lfloor>x / y\<rfloor>"

definition get_parking_fee :: "Vehicle \<Rightarrow> datetime \<Rightarrow> real" where
  "get_parking_fee self exit_time =
     (case entry_time self of
        None \<Rightarrow> 0
      | Some entry \<Rightarrow>
          (let hours_parked = fl (total_seconds (exit_time - entry) / 3600);
               hours_parked = max 1 hours_parked;
               hours_parked = floordiv (fl (hours_parked + fl (99 / 100))) 1
           in fl (hours_parked * rate_of (vehicle_type self))))"

subsection \<open>ParkingLot\<close>

definition ParkingLot_init :: "int \<Rightarrow> ParkingLot" where
  "ParkingLot_init cap =
     \<lparr>capacity = cap, slots = replicate (nat cap) None, vehicles = [],
      hourly_rate = 2, revenue = 0, total_vehicles = 0\<rparr>"

definition is_full :: "ParkingLot \<Rightarrow> bool" where
  "is_full self = list_all (\<lambda>slot. slot \<noteq> None) (slots self)"

definition is_empty :: "ParkingLot \<Rightarrow> bool" where
  "is_empty self = list_all (\<lambda>slot. slot = None) (slots self)"

fun find_slot :: "Vehicle option list \<Rightarrow> int list \<Rightarrow> error + int option" where
  \<comment> \<open>the \<^verbatim>\<open>for\<close> loop of \<^verbatim>\<open>park_vehicle\<close>: the first index of the range whose cell is
      \<^verbatim>\<open>None\<close>; \<open>Inr None\<close> when the loop runs to its end\<close>
  "find_slot sl [] = Inr None"
| "find_slot sl (i # is) =
     (case py_getitem sl i of
        Inl e \<Rightarrow> Inl e
      | Inr None \<Rightarrow> Inr (Some i)
      | Inr (Some v) \<Rightarrow> find_slot sl is)"

definition park_vehicle ::
  "ParkingLot \<Rightarrow> Vehicle \<Rightarrow> datetime \<Rightarrow> (error + int) \<times> ParkingLot" where
  "park_vehicle self vehicle now =
     (if is_full self then (Inl ParkingLotFullError, self)
      else case find_slot (slots self) (py_range (capacity self)) of
        Inl e \<Rightarrow> (Inl e, self)
      | Inr None \<Rightarrow> (Inl ParkingLotFullError, self)
      | Inr (Some i) \<Rightarrow>
          (let v = vehicle\<lparr>slot_number := Some (i + 1), entry_time := Some now\<rparr>
           in (Inr (i + 1),
               self\<lparr>slots := (slots self)[nat i := Some v],
                    vehicles := AList.update (vehicle_id v) v (vehicles self),
                    total_vehicles := total_vehicles self + 1\<rparr>)))"

definition free_slot :: "Vehicle option list \<Rightarrow> int option \<Rightarrow> error + Vehicle option list" where
  \<comment> \<open>\<^verbatim>\<open>if vehicle.slot_number: self.slots[vehicle.slot_number - 1] = None\<close>\<close>
  "free_slot sl sn =
     (case sn of
        None \<Rightarrow> Inr sl
      | Some n \<Rightarrow> if n = 0 then Inr sl else py_setitem sl (n - 1) None)"

definition remove_vehicle ::
  "ParkingLot \<Rightarrow> string \<Rightarrow> datetime \<Rightarrow> (error + Vehicle \<times> real) \<times> ParkingLot" where
  "remove_vehicle self vid now =
     (case map_of (vehicles self) vid of
        None \<Rightarrow> (Inl ValueError, self)
      | Some vehicle \<Rightarrow>
          (let fee = get_parking_fee vehicle now;
               self1 = self\<lparr>revenue := fl (revenue self + fee)\<rparr>
           in case free_slot (slots self1) (slot_number vehicle) of
                Inl e \<Rightarrow> (Inl e, self1)
              | Inr sl \<Rightarrow>
                  (Inr (vehicle, fee),
                   self1\<lparr>slots := sl, vehicles := AList.delete vid (vehicles self1)\<rparr>)))"

definition get_available_slots :: "ParkingLot \<Rightarrow> int list" where
  "get_available_slots self =
     map (\<lambda>(i, slot). int i + 1) (filter (\<lambda>(i, slot). slot = None) (enumerate 0 (slots self)))"

definition get_occupied_slots :: "ParkingLot \<Rightarrow> int list" where
  "get_occupied_slots self =
     map (\<lambda>(i, slot). int i + 1) (filter (\<lambda>(i, slot). slot \<noteq> None) (enumerate 0 (slots self)))"

definition get_slot_status :: "ParkingLot \<Rightarrow> int \<Rightarrow> error + Vehicle option" where
  "get_slot_status self n =
     (if 1 \<le> n \<and> n \<le> capacity self then py_getitem (slots self) (n - 1) else Inr None)"

definition get_total_vehicles_parked :: "ParkingLot \<Rightarrow> nat" where
  "get_total_vehicles_parked self = length (vehicles self)"

definition reset :: "ParkingLot \<Rightarrow> ParkingLot" where
  "reset self = self\<lparr>slots := replicate (nat (capacity self)) None, vehicles := []\<rparr>"

subsection \<open>Handlers of AutomatedParkingLotSystem\<close>

definition quick_park ::
  "ParkingLot \<Rightarrow> VehicleType \<Rightarrow> string \<Rightarrow> string \<Rightarrow> string \<Rightarrow> datetime
     \<Rightarrow> (error + int) \<times> ParkingLot" where
  \<comment> \<open>the identifier, the owner and the colour are the random choices of the source; the
      message boxes are left out\<close>
  "quick_park lot vtype vid owner col now =
     park_vehicle lot (Vehicle_init vid vtype owner col) now"

partial_function (option) clear_loop :: "(nat \<Rightarrow> datetime) \<Rightarrow> nat \<Rightarrow> ParkingLot \<Rightarrow> ParkingLot option" where
  \<comment> \<open>the \<^verbatim>\<open>while self.parking_lot.vehicles\<close> loop of \<^verbatim>\<open>emergency_clear\<close>; an exception of
      \<^verbatim>\<open>remove_vehicle\<close> is swallowed and the loop goes on with the state as it is then;
      \<open>clock k\<close> is the time at the \<open>k\<close>-th pass\<close>
  "clear_loop clock k lot =
     (case vehicles lot of
        [] \<Rightarrow> Some lot
      | (vid, v) # rest \<Rightarrow> clear_loop clock (Suc k) (snd (remove_vehicle lot vid (clock k))))"

definition emergency_clear ::
  "ParkingLot \<Rightarrow> bool \<Rightarrow> (nat \<Rightarrow> datetime) \<Rightarrow> (unit \<times> ParkingLot) option" where
  \<comment> \<open>\<open>response\<close> is the answer to the confirmation dialog; the handler returns nothing\<close>
  "emergency_clear lot response clock =
     (if is_empty lot then Some ((), lot)
      else if response then map_option (\<lambda>l. ((), l)) (clear_loop clock 0 lot)
      else Some ((), lot))"

definition ParkingLot_new :: "int \<Rightarrow> error + ParkingLot" where
  \<comment> \<open>the call \<^verbatim>\<open>ParkingLot(capacity)\<close>: no statement of \<^verbatim>\<open>__init__\<close> raises, so the call
      returns the object\<close>
  "ParkingLot_new cap = Inr (ParkingLot_init cap)"

subsection \<open>The consistency of a lot\<close>

text \<open>
  The slot table and the identifier index agree: the table has \<open>capacity\<close> cells, no
  identifier is indexed twice, every indexed vehicle carries its own identifier and the
  number of a cell that holds it, and there are as many occupied cells as index entries.
\<close>

definition lot_inv :: "ParkingLot \<Rightarrow> bool" where
  "lot_inv lot \<longleftrightarrow>
     length (slots lot) = nat (capacity lot) \<and>
     distinct (map fst (vehicles lot)) \<and>
     list_all (\<lambda>(k, v). vehicle_id v = k \<and>
        (case slot_number v of
           None \<Rightarrow> False
         | Some n \<Rightarrow> 1 \<le> n \<and> n \<le> int (length (slots lot)) \<and> slots lot ! nat (n - 1) = Some v))
       (vehicles lot) \<and>
     length (filter (\<lambda>slot. slot \<noteq> None) (slots lot)) = length (vehicles lot)"

subsection \<open>The fee as the specification words it\<close>

definition elapsed_hours :: "datetime \<Rightarrow> datetime \<Rightarrow> real" where
  \<comment> \<open>the time from \<open>arrival\<close> to \<open>now\<close> in hours, exactly\<close>
  "elapsed_hours arrival now = real_of_int (now - arrival) / 3600000000"


subsection \<open>Example states\<close>

definition car_A :: Vehicle where
  "car_A = Vehicle_init ''A'' CAR ''Al'' ''#3498db''"

definition bike_B :: Vehicle where
  "bike_B = Vehicle_init ''B'' BIKE ''Bo'' ''#e74c3c''"

definition truck_C :: Vehicle where
  "truck_C = Vehicle_init ''C'' TRUCK ''Cy'' ''#f39c12''"

definition suv_D :: Vehicle where
  "suv_D = Vehicle_init ''D'' SUV ''Di'' ''#9b59b6''"

definition parked :: "Vehicle \<Rightarrow> int \<Rightarrow> datetime \<Rightarrow> Vehicle" where
  \<comment> \<open>a vehicle as \<^verbatim>\<open>park_vehicle\<close> leaves it\<close>
  "parked v n t = v\<lparr>slot_number := Some n, entry_time := Some t\<rparr>"

definition lot_two :: ParkingLot where
  \<comment> \<open>capacity 3, \<open>A\<close> and \<open>B\<close> admitted at time 0\<close>
  "lot_two = snd (park_vehicle (snd (park_vehicle (ParkingLot_init 3) car_A 0)) bike_B 0)"

definition lot_gaps :: ParkingLot where
  \<comment> \<open>capacity 4, four admissions, then \<open>B\<close> and \<open>D\<close> released: occupied, free, occupied, free\<close>
  "lot_gaps =
     (let l1 = snd (park_vehicle (ParkingLot_init 4) car_A 0);
          l2 = snd (park_vehicle l1 bike_B 0);
          l3 = snd (park_vehicle l2 truck_C 0);
          l4 = snd (park_vehicle l3 suv_D 0);
          l5 = snd (remove_vehicle l4 ''B'' 0)
      in snd (remove_vehicle l5 ''D'' 0))"

definition lot_ABC :: ParkingLot where
  \<comment> \<open>capacity 3 with the demo vehicle \<open>ABC123\<close> admitted\<close>
  "lot_ABC = snd (park_vehicle (ParkingLot_init 3)
                    (Vehicle_init ''ABC123'' CAR ''John Smith'' ''#3498db'') 0)"

definition lot_dup :: ParkingLot where
  \<comment> \<open>\<open>lot_ABC\<close> after \<^verbatim>\<open>quick_park\<close> drew the identifier \<open>ABC123\<close> again\<close>
  "lot_dup = snd (quick_park lot_ABC BIKE ''ABC123'' ''Jane Doe'' ''#e74c3c'' 5)"

section \<open>Auxiliary facts\<close>

subsection \<open>Indexing and the scan for a free cell\<close>
lemma py_index_in_range:
  "0 \<le> i \<Longrightarrow> i < int (length xs) \<Longrightarrow> py_index xs i = Inr (nat i)"
  by (simp add: py_index_def)

lemma py_getitem_in_range:
  "0 \<le> i \<Longrightarrow> i < int (length xs) \<Longrightarrow> py_getitem xs i = Inr (xs ! nat i)"
  by (simp add: py_getitem_def py_index_in_range)

lemma py_setitem_in_range:
  "0 \<le> i \<Longrightarrow> i < int (length xs) \<Longrightarrow> py_setitem xs i v = Inr (xs[nat i := v])"
  by (simp add: py_setitem_def py_index_in_range)

lemma find_slot_find:
  "\<forall>i\<in>set js. i < length sl \<Longrightarrow>
   find_slot sl (map int js) = Inr (map_option int (List.find (\<lambda>i. sl ! i = None) js))"
  by (induction js) (auto simp: py_getitem_in_range split: option.splits)

lemma find_slot_range:
  assumes "length sl = nat cap"
  shows "find_slot sl (py_range cap) = Inr (map_option int (List.find (\<lambda>i. sl ! i = None) [0..<length sl]))"
  unfolding py_range_def using assms find_slot_find[of "[0..<nat cap]" sl] by simp

lemma find_upt_first:
  assumes "i < n" "P i" "\<forall>j<i. \<not> P j"
  shows "List.find P [0..<n] = Some i"
proof -
  have "\<exists>k<length [0..<n]. P ([0..<n] ! k) \<and> i = [0..<n] ! k \<and> (\<forall>j<k. \<not> P ([0..<n] ! j))"
    using assms by (intro exI[of _ i]) auto
  then show ?thesis by (simp only: find_Some_iff)
qed

lemma first_empty_exists:
  assumes "\<exists>i<length sl. sl ! i = None"
  shows "\<exists>i<length sl. sl ! i = None \<and> (\<forall>j<i. sl ! j \<noteq> None)"
proof -
  define i where "i = (LEAST i. i < length sl \<and> sl ! i = None)"
  from assms obtain k where k: "k < length sl \<and> sl ! k = None" by blast
  have a: "i < length sl \<and> sl ! i = None"
    unfolding i_def by (rule LeastI[of _ k]) (rule k)
  have b: "\<forall>j<i. sl ! j \<noteq> None"
  proof (intro allI impI)
    fix j assume "j < i"
    then have "\<not> (j < length sl \<and> sl ! j = None)"
      unfolding i_def by (rule not_less_Least)
    moreover have "j < length sl" using \<open>j < i\<close> a by simp
    ultimately show "sl ! j \<noteq> None" by simp
  qed
  from a b show ?thesis by blast
qed

lemma not_full_iff: "\<not> is_full lot \<longleftrightarrow> (\<exists>i<length (slots lot). slots lot ! i = None)"
  by (auto simp: is_full_def list_all_length)

lemma park_vehicle_at:
  assumes len: "length (slots lot) = nat (capacity lot)"
    and i: "i < length (slots lot)" "slots lot ! i = None" "\<forall>j<i. slots lot ! j \<noteq> None"
  shows "park_vehicle lot v now =
     (Inr (int i + 1),
      lot\<lparr>slots := (slots lot)[i := Some (v\<lparr>slot_number := Some (int i + 1), entry_time := Some now\<rparr>)],
          vehicles := AList.update (vehicle_id v)
             (v\<lparr>slot_number := Some (int i + 1), entry_time := Some now\<rparr>) (vehicles lot),
          total_vehicles := total_vehicles lot + 1\<rparr>)"
proof -
  have nf: "\<not> is_full lot" using i by (auto simp: not_full_iff)
  have f: "List.find (\<lambda>i. slots lot ! i = None) [0..<length (slots lot)] = Some i"
    using i by (intro find_upt_first) auto
  show ?thesis
    by (simp add: park_vehicle_def nf find_slot_range[OF len] f Let_def)
qed

lemma park_vehicle_full:
  "is_full lot \<Longrightarrow> park_vehicle lot v now = (Inl ParkingLotFullError, lot)"
  by (simp add: park_vehicle_def)

subsection \<open>Counting cells and index entries\<close>

lemma count_set_free:
  "i < length xs \<Longrightarrow> xs ! i \<noteq> None \<Longrightarrow>
   Suc (length (filter (\<lambda>s. s \<noteq> None) (xs[i := None]))) = length (filter (\<lambda>s. s \<noteq> None) xs)"
proof (induction xs arbitrary: i)
  case Nil
  then show ?case by simp
next
  case (Cons x xs)
  then show ?case by (cases i) auto
qed

lemma count_set_occupied:
  "i < length xs \<Longrightarrow> xs ! i = None \<Longrightarrow>
   length (filter (\<lambda>s. s \<noteq> None) (xs[i := Some v])) = Suc (length (filter (\<lambda>s. s \<noteq> None) xs))"
proof (induction xs arbitrary: i)
  case Nil
  then show ?case by simp
next
  case (Cons x xs)
  then show ?case by (cases i) auto
qed

lemma length_delete_present:
  "distinct (map fst al) \<Longrightarrow> map_of al k = Some v \<Longrightarrow>
   Suc (length (AList.delete k al)) = length al"
proof (induction al)
  case Nil
  then show ?case by simp
next
  case (Cons p al)
  obtain k' v' where p: "p = (k', v')" by (cases p)
  show ?case
  proof (cases "k' = k")
    case True
    then have "k \<notin> fst ` set al" using Cons.prems(1) p by auto
    then show ?thesis using True p by (simp add: AList.delete_id)
  next
    case False
    then show ?thesis using Cons p by simp
  qed
qed

lemma length_update_fresh:
  "map_of al k = None \<Longrightarrow> length (AList.update k v al) = Suc (length al)"
  by (induction al) (auto split: if_splits)

lemma set_update_fresh:
  "map_of al k = None \<Longrightarrow> set (AList.update k v al) = insert (k, v) (set al)"
  by (induction al) (auto split: if_splits)

lemma set_delete: "set (AList.delete k al) = {p \<in> set al. fst p \<noteq> k}"
  by (auto simp: AList.delete_eq)

lemma occupied_count:
  "length (get_occupied_slots lot) = length (filter (\<lambda>slot. slot \<noteq> None) (slots lot))"
proof -
  have "length (filter (\<lambda>(i, slot). slot \<noteq> None) (enumerate n xs)) =
        length (filter (\<lambda>slot. slot \<noteq> None) xs)" for n and xs :: "Vehicle option list"
    by (induction xs arbitrary: n) auto
  then show ?thesis by (simp add: get_occupied_slots_def)
qed

lemma lot_inv_init: "lot_inv (ParkingLot_init cap)"
  by (simp add: lot_inv_def ParkingLot_init_def)

lemma lot_inv_reset: "lot_inv (reset lot)"
  by (simp add: lot_inv_def reset_def)

lemma lot_inv_entry:
  assumes "lot_inv lot" "(k, v) \<in> set (vehicles lot)"
  obtains n where "vehicle_id v = k" "slot_number v = Some n" "1 \<le> n"
    "n \<le> int (length (slots lot))" "slots lot ! nat (n - 1) = Some v"
  using assms by (auto simp: lot_inv_def list_all_iff split: option.splits)

lemma lot_inv_park:
  assumes inv: "lot_inv lot" and fresh: "map_of (vehicles lot) (vehicle_id v) = None"
  shows "lot_inv (snd (park_vehicle lot v now))"
proof (cases "is_full lot")
  case True
  then show ?thesis using inv by (simp add: park_vehicle_full)
next
  case False
  have len: "length (slots lot) = nat (capacity lot)" using inv by (simp add: lot_inv_def)
  from False obtain i where i: "i < length (slots lot)" "slots lot ! i = None"
      "\<forall>j<i. slots lot ! j \<noteq> None"
    using first_empty_exists[of "slots lot"] by (auto simp: not_full_iff)
  define v' where "v' = v\<lparr>slot_number := Some (int i + 1), entry_time := Some now\<rparr>"
  define lot' where "lot' = lot\<lparr>slots := (slots lot)[i := Some v'],
          vehicles := AList.update (vehicle_id v) v' (vehicles lot),
          total_vehicles := total_vehicles lot + 1\<rparr>"
  have res: "snd (park_vehicle lot v now) = lot'"
    by (simp add: park_vehicle_at[OF len i] lot'_def v'_def)
  have 1: "length (slots lot') = nat (capacity lot')" using len by (simp add: lot'_def)
  have 2: "distinct (map fst (vehicles lot'))"
    using inv by (simp add: lot'_def lot_inv_def AList.distinct_update)
  have 3: "list_all (\<lambda>(k, w). vehicle_id w = k \<and>
        (case slot_number w of
           None \<Rightarrow> False
         | Some n \<Rightarrow> 1 \<le> n \<and> n \<le> int (length (slots lot')) \<and> slots lot' ! nat (n - 1) = Some w))
       (vehicles lot')"
    unfolding list_all_iff
  proof (intro ballI)
    fix p assume p: "p \<in> set (vehicles lot')"
    obtain k w where kw: "p = (k, w)" by (cases p)
    from p kw have "(k, w) = (vehicle_id v, v') \<or> (k, w) \<in> set (vehicles lot)"
      by (simp add: lot'_def set_update_fresh[OF fresh])
    then show "case p of (k, w) \<Rightarrow> vehicle_id w = k \<and>
        (case slot_number w of
           None \<Rightarrow> False
         | Some n \<Rightarrow> 1 \<le> n \<and> n \<le> int (length (slots lot')) \<and> slots lot' ! nat (n - 1) = Some w)"
    proof
      assume "(k, w) = (vehicle_id v, v')"
      then show ?thesis using i kw by (simp add: lot'_def v'_def)
    next
      assume old: "(k, w) \<in> set (vehicles lot)"
      from lot_inv_entry[OF inv old] obtain n where n: "vehicle_id w = k" "slot_number w = Some n"
        "1 \<le> n" "n \<le> int (length (slots lot))" "slots lot ! nat (n - 1) = Some w" by blast
      have "nat (n - 1) \<noteq> i" using n(5) i(2) by auto
      then show ?thesis using n kw by (simp add: lot'_def)
    qed
  qed
  have 4: "length (filter (\<lambda>slot. slot \<noteq> None) (slots lot')) = length (vehicles lot')"
  proof -
    have a: "slots lot' = (slots lot)[i := Some v']" by (simp add: lot'_def)
    have b: "vehicles lot' = AList.update (vehicle_id v) v' (vehicles lot)" by (simp add: lot'_def)
    have c: "length (filter (\<lambda>slot. slot \<noteq> None) (slots lot)) = length (vehicles lot)"
      using inv unfolding lot_inv_def by blast
    show ?thesis
      unfolding a b
      using count_set_occupied[OF i(1) i(2), of v'] length_update_fresh[OF fresh, of v'] c
      by simp
  qed
  show ?thesis unfolding res using 1 2 3 4 by (simp add: lot_inv_def)
qed

subsection \<open>Release and the clearing loop\<close>

lemma remove_vehicle_unknown:
  "map_of (vehicles lot) vid = None \<Longrightarrow> remove_vehicle lot vid now = (Inl ValueError, lot)"
  by (simp add: remove_vehicle_def)

lemma remove_vehicle_at:
  assumes v: "map_of (vehicles lot) vid = Some v"
    and n: "slot_number v = Some n" "1 \<le> n" "n \<le> int (length (slots lot))"
  shows "remove_vehicle lot vid now =
     (Inr (v, get_parking_fee v now),
      lot\<lparr>revenue := fl (revenue lot + get_parking_fee v now),
          slots := (slots lot)[nat (n - 1) := None],
          vehicles := AList.delete vid (vehicles lot)\<rparr>)"
proof -
  have "free_slot (slots lot) (slot_number v) = Inr ((slots lot)[nat (n - 1) := None])"
    using n by (simp add: free_slot_def py_setitem_in_range)
  then show ?thesis using v by (simp add: remove_vehicle_def Let_def)
qed

lemma lot_inv_lookup:
  assumes inv: "lot_inv lot" and v: "map_of (vehicles lot) vid = Some v"
  obtains n where "vehicle_id v = vid" "slot_number v = Some n" "1 \<le> n"
    "n \<le> int (length (slots lot))" "slots lot ! nat (n - 1) = Some v"
proof -
  have "(vid, v) \<in> set (vehicles lot)" using v by (rule map_of_SomeD)
  from lot_inv_entry[OF inv this] that show ?thesis by blast
qed

lemma lot_inv_remove:
  assumes inv: "lot_inv lot"
  shows "lot_inv (snd (remove_vehicle lot vid now))"
proof (cases "map_of (vehicles lot) vid")
  case None
  then show ?thesis using inv by (simp add: remove_vehicle_unknown)
next
  case (Some v)
  from lot_inv_lookup[OF inv Some] obtain n where n: "vehicle_id v = vid" "slot_number v = Some n"
    "1 \<le> n" "n \<le> int (length (slots lot))" "slots lot ! nat (n - 1) = Some v" by blast
  define lot' where "lot' = lot\<lparr>revenue := fl (revenue lot + get_parking_fee v now),
          slots := (slots lot)[nat (n - 1) := None],
          vehicles := AList.delete vid (vehicles lot)\<rparr>"
  have res: "snd (remove_vehicle lot vid now) = lot'"
    by (simp add: remove_vehicle_at[OF Some n(2,3,4)] lot'_def)
  have dist: "distinct (map fst (vehicles lot))" using inv by (simp add: lot_inv_def)
  have a: "slots lot' = (slots lot)[nat (n - 1) := None]" by (simp add: lot'_def)
  have b: "vehicles lot' = AList.delete vid (vehicles lot)" by (simp add: lot'_def)
  have pos: "nat (n - 1) < length (slots lot)" using n(3,4) by linarith
  have 1: "length (slots lot') = nat (capacity lot')" using inv by (simp add: lot'_def lot_inv_def)
  have 2: "distinct (map fst (vehicles lot'))"
    unfolding b using dist by (rule AList.distinct_delete)
  have 3: "list_all (\<lambda>(k, w). vehicle_id w = k \<and>
        (case slot_number w of
           None \<Rightarrow> False
         | Some m \<Rightarrow> 1 \<le> m \<and> m \<le> int (length (slots lot')) \<and> slots lot' ! nat (m - 1) = Some w))
       (vehicles lot')"
    unfolding list_all_iff
  proof (intro ballI)
    fix p assume p: "p \<in> set (vehicles lot')"
    obtain k w where kw: "p = (k, w)" by (cases p)
    from p kw have old: "(k, w) \<in> set (vehicles lot)" and ne: "k \<noteq> vid"
      by (auto simp: b set_delete)
    from lot_inv_entry[OF inv old] obtain m where m: "vehicle_id w = k" "slot_number w = Some m"
      "1 \<le> m" "m \<le> int (length (slots lot))" "slots lot ! nat (m - 1) = Some w" by blast
    have "w \<noteq> v" using m(1) n(1) ne by auto
    then have "nat (m - 1) \<noteq> nat (n - 1)" using m(5) n(5) by auto
    then show "case p of (k, w) \<Rightarrow> vehicle_id w = k \<and>
        (case slot_number w of
           None \<Rightarrow> False
         | Some m \<Rightarrow> 1 \<le> m \<and> m \<le> int (length (slots lot')) \<and> slots lot' ! nat (m - 1) = Some w)"
      using m kw by (simp add: a)
  qed
  have 4: "length (filter (\<lambda>slot. slot \<noteq> None) (slots lot')) = length (vehicles lot')"
  proof -
    have c: "length (filter (\<lambda>slot. slot \<noteq> None) (slots lot)) = length (vehicles lot)"
      using inv unfolding lot_inv_def by blast
    have occ: "slots lot ! nat (n - 1) \<noteq> None" using n(5) by simp
    show ?thesis
      unfolding a b
      using count_set_free[OF pos occ] length_delete_present[OF dist Some] c
      by simp
  qed
  show ?thesis unfolding res using 1 2 3 4 by (simp add: lot_inv_def)
qed

lemma lot_inv_I1:
  "lot_inv lot \<Longrightarrow> length (get_occupied_slots lot) = get_total_vehicles_parked lot"
  unfolding occupied_count get_total_vehicles_parked_def lot_inv_def by blast

lemma lot_inv_no_vehicles_empty:
  assumes "lot_inv lot" "vehicles lot = []"
  shows "is_empty lot"
proof -
  have "filter (\<lambda>slot. slot \<noteq> None) (slots lot) = []"
    using assms unfolding lot_inv_def by simp
  then show ?thesis
    unfolding is_empty_def list_all_iff by (auto simp: filter_empty_conv)
qed

lemma clear_loop_terminates:
  assumes "lot_inv lot"
  shows "\<exists>lot'. clear_loop clock k lot = Some lot' \<and> lot_inv lot' \<and> vehicles lot' = [] \<and>
           capacity lot' = capacity lot \<and> total_vehicles lot' = total_vehicles lot"
  using assms
proof (induction "length (vehicles lot)" arbitrary: lot k)
  case 0
  then show ?case by (simp add: clear_loop.simps)
next
  case (Suc m)
  then obtain vid v rest where vs: "vehicles lot = (vid, v) # rest"
    by (cases "vehicles lot") auto
  then have look: "map_of (vehicles lot) vid = Some v" by simp
  from lot_inv_lookup[OF Suc.prems look] obtain n where n: "slot_number v = Some n"
    "1 \<le> n" "n \<le> int (length (slots lot))" by blast
  define lot1 where "lot1 = snd (remove_vehicle lot vid (clock k))"
  have inv1: "lot_inv lot1" unfolding lot1_def using Suc.prems by (rule lot_inv_remove)
  have dist: "distinct (map fst (vehicles lot))" using Suc.prems by (simp add: lot_inv_def)
  have vs1: "vehicles lot1 = AList.delete vid (vehicles lot)"
    and keep: "capacity lot1 = capacity lot" "total_vehicles lot1 = total_vehicles lot"
    unfolding lot1_def by (simp_all add: remove_vehicle_at[OF look n])
  have "m = length (vehicles lot1)"
    unfolding vs1 using length_delete_present[OF dist look] Suc.hyps(2) by simp
  from Suc.hyps(1)[OF this inv1, of "Suc k"] obtain lot' where
    "clear_loop clock (Suc k) lot1 = Some lot'" "lot_inv lot'" "vehicles lot' = []"
    "capacity lot' = capacity lot1" "total_vehicles lot' = total_vehicles lot1" by blast
  moreover have "clear_loop clock k lot = clear_loop clock (Suc k) lot1"
    by (subst clear_loop.simps) (simp add: vs lot1_def)
  ultimately show ?case using keep by simp
qed

subsection \<open>Rounding to a double\<close>

lemma pow2_le_int:
  assumes "(2::int) ^ k \<le> n"
  shows "(2::real) ^ k \<le> real_of_int n"
proof -
  from assms have "real_of_int (2 ^ k) \<le> real_of_int n" by (rule of_int_le_iff[THEN iffD2])
  then show ?thesis by simp
qed

lemma int_lt_pow2:
  assumes "n < (2::int) ^ k"
  shows "real_of_int n + 1 \<le> (2::real) ^ k"
proof -
  from assms have "n + 1 \<le> 2 ^ k" by simp
  then have "real_of_int (n + 1) \<le> real_of_int (2 ^ k)" by (rule of_int_le_iff[THEN iffD2])
  then show ?thesis by simp
qed

lemma expo_bounds:
  assumes "0 < x"
  shows "2 powi expo x \<le> x" and "x < 2 powi (expo x + 1)"
proof -
  show "2 powi expo x \<le> x"
  proof (cases "1 \<le> x")
    case True
    then have pos: "0 < \<lfloor>x\<rfloor>" by simp
    from bitlen_bounds[OF pos] have "2 ^ nat (bitlen \<lfloor>x\<rfloor> - 1) \<le> \<lfloor>x\<rfloor>" by simp
    then have "2 ^ nat (bitlen \<lfloor>x\<rfloor> - 1) \<le> real_of_int \<lfloor>x\<rfloor>" by (rule pow2_le_int)
    moreover have "real_of_int \<lfloor>x\<rfloor> \<le> x" by simp
    ultimately have "2 ^ nat (bitlen \<lfloor>x\<rfloor> - 1) \<le> x" by linarith
    moreover have "0 \<le> bitlen \<lfloor>x\<rfloor> - 1" using pos by (simp add: bitlen_alt_def)
    ultimately show ?thesis using True by (simp add: expo_def power_int_def)
  next
    case False
    define n where "n = \<lceil>1 / x\<rceil> - 1"
    have y: "1 < 1 / x" using False assms by simp
    then have pos: "0 < n" unfolding n_def by linarith
    have b: "0 \<le> bitlen n" by (rule bitlen_nonneg)
    from bitlen_bounds[OF pos] have "n < 2 ^ nat (bitlen n)" by simp
    then have "real_of_int n + 1 \<le> 2 ^ nat (bitlen n)" by (rule int_lt_pow2)
    moreover have "1 / x \<le> real_of_int n + 1" unfolding n_def by simp
    ultimately have "1 / x \<le> 2 ^ nat (bitlen n)" by linarith
    then have "1 / 2 ^ nat (bitlen n) \<le> x"
      using assms by (simp add: field_simps)
    moreover have "expo x = - bitlen n" using False by (simp add: expo_def n_def)
    ultimately show ?thesis using b
      by (cases "bitlen n = 0") (simp_all add: power_int_def inverse_eq_divide power_one_over)
  qed
  show "x < 2 powi (expo x + 1)"
  proof (cases "1 \<le> x")
    case True
    then have pos: "0 < \<lfloor>x\<rfloor>" by simp
    from bitlen_bounds[OF pos] have "\<lfloor>x\<rfloor> < 2 ^ nat (bitlen \<lfloor>x\<rfloor>)" by simp
    then have "real_of_int \<lfloor>x\<rfloor> + 1 \<le> 2 ^ nat (bitlen \<lfloor>x\<rfloor>)" by (rule int_lt_pow2)
    moreover have "x < real_of_int \<lfloor>x\<rfloor> + 1" by linarith
    ultimately have "x < 2 ^ nat (bitlen \<lfloor>x\<rfloor>)" by linarith
    moreover have "0 \<le> bitlen \<lfloor>x\<rfloor>" by (rule bitlen_nonneg)
    ultimately show ?thesis using True by (simp add: expo_def power_int_def)
  next
    case False
    define n where "n = \<lceil>1 / x\<rceil> - 1"
    have y: "1 < 1 / x" using False assms by simp
    then have pos: "0 < n" unfolding n_def by linarith
    have b: "1 \<le> bitlen n" using pos by (simp add: bitlen_alt_def)
    from bitlen_bounds[OF pos] have "2 ^ nat (bitlen n - 1) \<le> n" by simp
    then have "2 ^ nat (bitlen n - 1) \<le> real_of_int n" by (rule pow2_le_int)
    moreover have "real_of_int n < 1 / x" unfolding n_def by linarith
    ultimately have "2 ^ nat (bitlen n - 1) < 1 / x" by linarith
    then have lt: "x < 1 / 2 ^ nat (bitlen n - 1)"
      using assms by (simp add: field_simps)
    have e: "expo x + 1 = - (bitlen n - 1)" using False by (simp add: expo_def n_def)
    show ?thesis
    proof (cases "bitlen n = 1")
      case True
      then show ?thesis using lt e by simp
    next
      case False
      then have "bitlen n - 1 > 0" using b by simp
      then show ?thesis using lt unfolding e
        by (simp add: power_int_def inverse_eq_divide power_one_over)
    qed
  qed
qed


lemma round_even_of_int: "round_even (real_of_int n) = n"
  by (simp add: round_even_def)

lemma round_even_nonneg: "0 \<le> x \<Longrightarrow> 0 \<le> round_even x"
proof -
  assume "0 \<le> x"
  then have "0 \<le> \<lfloor>x\<rfloor>" by simp
  then show ?thesis by (auto simp: round_even_def Let_def)
qed

lemma pow2_pos: "0 < (2::real) powi e"
  by (simp add: power_int_def)


lemma fl_nonpos: "x \<le> 0 \<Longrightarrow> fl x \<le> 0"
proof -
  assume x: "x \<le> 0"
  have "0 \<le> round_even (\<bar>x\<bar> / 2 powi (expo \<bar>x\<bar> - 52))"
    by (rule round_even_nonneg) (simp add: pow2_pos less_imp_le)
  then have "0 \<le> real_of_int (round_even (\<bar>x\<bar> / 2 powi (expo \<bar>x\<bar> - 52))) * 2 powi (expo \<bar>x\<bar> - 52)"
    using pow2_pos[of "expo \<bar>x\<bar> - 52"] by simp
  then show ?thesis
    using x by (simp add: fl_def Let_def sgn_if mult.assoc)
qed


lemma fl_half_int:
  assumes "\<bar>n\<bar> < 2 ^ 53"
  shows "fl (real_of_int n / 2) = real_of_int n / 2"
proof (cases "n = 0")
  case True
  then show ?thesis by (simp add: fl_def)
next
  case False
  define x where "x = real_of_int n / 2"
  define e where "e = expo \<bar>x\<bar>"
  have x0: "x \<noteq> 0" using False by (simp add: x_def)
  have ax: "0 < \<bar>x\<bar>" using x0 by simp
  have "real_of_int \<bar>n\<bar> < 2 ^ 53"
    using assms by (metis of_int_less_numeral_power_cancel_iff)
  then have lt: "\<bar>x\<bar> < 2 ^ 52" by (simp add: x_def)
  have "(2::real) powi e \<le> \<bar>x\<bar>" unfolding e_def by (rule expo_bounds(1)[OF ax])
  with lt have "(2::real) powi e < 2 powi 52" by simp
  then have e: "e < 52" by (rule power_int_le_imp_less_exp[rotated]) simp_all
  define d where "d = nat (51 - e)"
  have de: "e - 52 = - (int d + 1)" using e by (simp add: d_def)
  have u: "(2::real) powi (e - 52) = 1 / (2 * 2 ^ d)"
    unfolding de by (simp add: power_int_def inverse_eq_divide power_one_over nat_add_distrib)
  have q: "\<bar>x\<bar> / 2 powi (e - 52) = real_of_int (\<bar>n\<bar> * 2 ^ d)"
    unfolding u by (simp add: x_def)
  have "fl x = sgn x * real_of_int (round_even (\<bar>x\<bar> / 2 powi (e - 52))) * 2 powi (e - 52)"
    using x0 by (simp add: fl_def Let_def e_def)
  also have "\<dots> = sgn x * real_of_int (\<bar>n\<bar> * 2 ^ d) * 2 powi (e - 52)"
    unfolding q round_even_of_int ..
  also have "\<dots> = sgn x * \<bar>x\<bar>" unfolding u by (simp add: x_def)
  also have "\<dots> = x" by (simp add: sgn_if)
  finally show ?thesis unfolding x_def .
qed


lemma fl_const_199: "fl (1 + fl (99 / 100)) = 8962163258467287 / 4503599627370496"
  by code_simp

section \<open>Fees\<close>

subsection \<open>The billed hours in floats\<close>




lemma billed_hours_nonpos:
  fixes d :: int
  assumes "d \<le> 0"
  shows "\<lfloor>fl (max 1 (fl (total_seconds d / 3600)) + fl (99 / 100))\<rfloor> = 1"
proof -
  have "total_seconds d \<le> 0"
    unfolding total_seconds_def using assms by (intro fl_nonpos) simp
  then have "fl (total_seconds d / 3600) \<le> 0" by (intro fl_nonpos) simp
  then have "max 1 (fl (total_seconds d / 3600)) = 1" by simp
  then show ?thesis by (simp add: fl_const_199)
qed


subsection \<open>The fee\<close>

lemma rate_of_values:
  "rate_of CAR = 2" "rate_of BIKE = 1" "rate_of TRUCK = 3" "rate_of SUV = 5 / 2"
  by (simp_all add: rate_of_def rates_def)

lemma rate_of_pos: "0 < rate_of t"
  by (cases t) (simp_all add: rate_of_values)

lemma fee_product_exact:
  assumes "0 \<le> k" "k \<le> 500001"
  shows "fl (real_of_int k * rate_of ty) = real_of_int k * rate_of ty"
proof -
  define n where "n = (case ty of CAR \<Rightarrow> 4 * k | BIKE \<Rightarrow> 2 * k | TRUCK \<Rightarrow> 6 * k | SUV \<Rightarrow> 5 * k)"
  have e: "real_of_int k * rate_of ty = real_of_int n / 2"
    unfolding n_def by (cases ty) (simp_all add: rate_of_values)
  have "\<bar>n\<bar> < 2 ^ 53"
    unfolding n_def using assms by (cases ty) simp_all
  then show ?thesis unfolding e by (rule fl_half_int)
qed

lemma get_parking_fee_set:
  "entry_time v = Some arrival \<Longrightarrow>
   get_parking_fee v now =
     fl (real_of_int \<lfloor>fl (max 1 (fl (total_seconds (now - arrival) / 3600)) + fl (99 / 100))\<rfloor>
           * rate_of (vehicle_type v))"
  by (simp add: get_parking_fee_def floordiv_def Let_def)


lemma get_parking_fee_early:
  assumes "entry_time v = Some arrival" and "now \<le> arrival"
  shows "get_parking_fee v now = rate_of (vehicle_type v)"
proof -
  have "\<lfloor>fl (max 1 (fl (total_seconds (now - arrival) / 3600)) + fl (99 / 100))\<rfloor> = 1"
    by (rule billed_hours_nonpos) (use assms(2) in simp)
  then show ?thesis
    unfolding get_parking_fee_set[OF assms(1)]
    using fee_product_exact[of 1 "vehicle_type v"] by simp
qed

lemma remove_vehicle_found:
  "map_of (vehicles lot) vid = Some v \<Longrightarrow>
   fst (remove_vehicle lot vid now) =
     (case free_slot (slots lot) (slot_number v) of
        Inl e \<Rightarrow> Inl e
      | Inr sl \<Rightarrow> Inr (v, get_parking_fee v now))"
  by (simp add: remove_vehicle_def Let_def split: sum.splits)






text \<open>
  The bound on the elapsed time is needed. After 7549747235999999 microseconds, a little
  less than 2097152.01 hours, the float sum rounds up to 2097153, and the car pays one
  hour more than \<open>\<lfloor>max elapsed 1 + 0.99\<rfloor>\<close>.
\<close>

lemma fee_beyond_bound_example:
  "elapsed_hours 0 7549747235999999 = 7549747235999999 / 3600000000 \<and>
   \<lfloor>max (elapsed_hours 0 7549747235999999) 1 + 99 / 100\<rfloor> = 2097152 \<and>
   get_parking_fee (parked car_A 1 0) 7549747235999999 = 2097153 * 2"
  by code_simp

text \<open>
  Claim C9. A vehicle whose arrival time has never been set (\<^verbatim>\<open>entry_time\<close> is
  \<^verbatim>\<open>None\<close>) has the parking fee 0 for every exit time; \<^verbatim>\<open>get_parking_fee\<close> has no
  failing path.
\<close>

theorem fee_without_arrival:
  "entry_time v = None \<Longrightarrow> get_parking_fee v exit_time = 0"
  by (simp add: get_parking_fee_def)

theorem fee_without_arrival_witness:
  "entry_time car_A = None \<and> get_parking_fee car_A 7200000000 = 0"
proof -
  have h: "entry_time car_A = None" by code_simp
  from fee_without_arrival[OF h, of 7200000000] h show ?thesis by simp
qed

text \<open>
  Claim C10. When the exit time is earlier than the arrival time, the fee is exactly one
  hour at the hourly rate of the vehicle's category, which is positive, and
  \<^verbatim>\<open>remove_vehicle\<close> returns the vehicle with this fee whenever it finds the identifier,
  unless freeing the slot raises.
\<close>

theorem fee_negative_elapsed:
  assumes "entry_time v = Some arrival" and "now < arrival"
  shows "get_parking_fee v now = 1 * rate_of (vehicle_type v) \<and>
         0 < get_parking_fee v now \<and>
         (map_of (vehicles lot) vid = Some v \<longrightarrow>
            fst (remove_vehicle lot vid now) =
              (case free_slot (slots lot) (slot_number v) of
                 Inl e \<Rightarrow> Inl e
               | Inr sl \<Rightarrow> Inr (v, 1 * rate_of (vehicle_type v))))"
proof -
  have fee: "get_parking_fee v now = rate_of (vehicle_type v)"
    by (rule get_parking_fee_early[OF assms(1) less_imp_le[OF assms(2)]])
  have rel: "map_of (vehicles lot) vid = Some v \<longrightarrow>
            fst (remove_vehicle lot vid now) =
              (case free_slot (slots lot) (slot_number v) of
                 Inl e \<Rightarrow> Inl e
               | Inr sl \<Rightarrow> Inr (v, 1 * rate_of (vehicle_type v)))"
    using remove_vehicle_found[of lot vid v now] unfolding fee by (simp split: sum.split)
  have "get_parking_fee v now = 1 * rate_of (vehicle_type v)" using fee by simp
  moreover have "0 < get_parking_fee v now" unfolding fee by (rule rate_of_pos)
  ultimately show ?thesis using rel by blast
qed

text \<open>
  Bike \<open>B\<close>, admitted at time 0 and released half an hour before, pays 1 hour at 1.0; so
  does the bike of the lot in which \<open>ABC123\<close> was admitted twice.
\<close>

theorem fee_negative_elapsed_witness:
  "fst (remove_vehicle lot_two ''B'' (- 1800000000)) = Inr (parked bike_B 2 0, 1) \<and>
   fst (remove_vehicle lot_dup ''ABC123'' (- 1800000000)) =
     Inr (parked (Vehicle_init ''ABC123'' BIKE ''Jane Doe'' ''#e74c3c'') 2 5, 1)"
proof -
  let ?b = "parked (Vehicle_init ''ABC123'' BIKE ''Jane Doe'' ''#e74c3c'') 2 5"
  have look: "map_of (vehicles lot_two) ''B'' = Some (parked bike_B 2 0)" by code_simp
  have arr: "entry_time (parked bike_B 2 0) = Some 0" by code_simp
  have ty: "vehicle_type (parked bike_B 2 0) = BIKE" by code_simp
  have sl: "free_slot (slots lot_two) (slot_number (parked bike_B 2 0))
              = Inr [Some (parked car_A 1 0), None, None]" by code_simp
  have look': "map_of (vehicles lot_dup) ''ABC123'' = Some ?b" by code_simp
  have arr': "entry_time ?b = Some 5" by code_simp
  have ty': "vehicle_type ?b = BIKE" by code_simp
  have sl': "free_slot (slots lot_dup) (slot_number ?b)
              = Inr [Some (parked (Vehicle_init ''ABC123'' CAR ''John Smith'' ''#3498db'') 1 0),
                     None, None]" by code_simp
  have lt: "(- 1800000000 :: int) < 0" "(- 1800000000 :: int) < 5" by simp_all
  have 1: "fst (remove_vehicle lot_two ''B'' (- 1800000000)) = Inr (parked bike_B 2 0, 1)"
    using fee_negative_elapsed[OF arr lt(1), of lot_two "''B''"] look
    by (simp add: sl ty rate_of_values)
  have 2: "fst (remove_vehicle lot_dup ''ABC123'' (- 1800000000)) = Inr (?b, 1)"
    using fee_negative_elapsed[OF arr' lt(2), of lot_dup "''ABC123''"] look'
    by (simp add: sl' ty' rate_of_values)
  show ?thesis using 1 2 by blast
qed

section \<open>Admission\<close>

text \<open>
  Claim C4. On a lot whose slot table has \<open>capacity\<close> cells, one of them empty,
  \<^verbatim>\<open>park_vehicle\<close> succeeds, the cell it fills is the empty cell of the lowest index,
  and the slot number it returns is that index plus 1.
\<close>

theorem park_vehicle_first_fit:
  assumes "length (slots lot) = nat (capacity lot)"
    and "\<exists>i<length (slots lot). slots lot ! i = None"
  shows "\<exists>i<length (slots lot).
           slots lot ! i = None \<and> (\<forall>j<i. slots lot ! j \<noteq> None) \<and>
           fst (park_vehicle lot v now) = Inr (int i + 1) \<and>
           slots (snd (park_vehicle lot v now)) =
             (slots lot)[i := Some (v\<lparr>slot_number := Some (int i + 1), entry_time := Some now\<rparr>)]"
proof -
  from first_empty_exists[OF assms(2)] obtain i where
    i: "i < length (slots lot)" "slots lot ! i = None" "\<forall>j<i. slots lot ! j \<noteq> None"
    by blast
  show ?thesis
    using i by (intro exI[of _ i]) (simp add: park_vehicle_at[OF assms(1) i])
qed

text \<open>With the cells occupied, free, occupied, free the next admission gets slot 2.\<close>

theorem park_vehicle_first_fit_witness:
  "slots lot_gaps = [Some (parked car_A 1 0), None, Some (parked truck_C 3 0), None] \<and>
   fst (park_vehicle lot_gaps suv_D 60000000) = Inr 2"
proof -
  have sl: "slots lot_gaps = [Some (parked car_A 1 0), None, Some (parked truck_C 3 0), None]"
    by code_simp
  have len: "length (slots lot_gaps) = nat (capacity lot_gaps)" by code_simp
  have ex: "\<exists>i<length (slots lot_gaps). slots lot_gaps ! i = None"
    unfolding sl by (intro exI[of _ 1]) simp
  from park_vehicle_first_fit[OF len ex, of suv_D 60000000] obtain i where
    i: "i < length (slots lot_gaps)" "slots lot_gaps ! i = None"
       "\<forall>j<i. slots lot_gaps ! j \<noteq> None"
       "fst (park_vehicle lot_gaps suv_D 60000000) = Inr (int i + 1)"
    by blast
  have "i = 0 \<or> i = 1 \<or> i = 2 \<or> i = 3" using i(1) unfolding sl by auto
  moreover have "i \<noteq> 0"
  proof
    assume "i = 0"
    with i(2) have "slots lot_gaps ! 0 = None" by simp
    then show False unfolding sl by simp
  qed
  moreover have "i \<noteq> 2"
  proof
    assume "i = 2"
    with i(2) have "slots lot_gaps ! 2 = None" by simp
    then show False unfolding sl by simp
  qed
  moreover have "i \<noteq> 3"
  proof
    assume "i = 3"
    with i(3) have "slots lot_gaps ! 1 \<noteq> None" by simp
    then show False unfolding sl by simp
  qed
  ultimately have "i = 1" by blast
  with i(4) sl show ?thesis by simp
qed

text \<open>
  Claim C2 does not hold of the code. \<^verbatim>\<open>ParkingLot.park_vehicle\<close> never looks the
  identifier up, and of its callers only the manual parking handler does; when
  \<^verbatim>\<open>quick_park\<close> draws the identifier \<open>ABC123\<close> of a vehicle that is parked, the call
  succeeds: it returns slot 2, fills a second cell, replaces the index entry of the first
  admission and counts one more admission.
\<close>

theorem quick_park_duplicate_admitted:
  "map_of (vehicles lot_ABC) ''ABC123'' =
     Some (parked (Vehicle_init ''ABC123'' CAR ''John Smith'' ''#3498db'') 1 0) \<and>
   quick_park lot_ABC BIKE ''ABC123'' ''Jane Doe'' ''#e74c3c'' 5 =
     (Inr 2,
      \<lparr>capacity = 3,
       slots = [Some (parked (Vehicle_init ''ABC123'' CAR ''John Smith'' ''#3498db'') 1 0),
                Some (parked (Vehicle_init ''ABC123'' BIKE ''Jane Doe'' ''#e74c3c'') 2 5),
                None],
       vehicles = [(''ABC123'', parked (Vehicle_init ''ABC123'' BIKE ''Jane Doe'' ''#e74c3c'') 2 5)],
       hourly_rate = 2, revenue = 0, total_vehicles = 2\<rparr>)"
  by code_simp

text \<open>
  Claim C5 does not hold of the code, by the same missing check as for C2. After the
  second admission of \<open>ABC123\<close> two cells are occupied and the index has one entry; after
  the release of \<open>ABC123\<close> one cell is still occupied and the index is empty.
\<close>

theorem duplicate_breaks_index_count:
  "length (get_occupied_slots lot_ABC) = 1 \<and> get_total_vehicles_parked lot_ABC = 1 \<and>
   length (get_occupied_slots lot_dup) = 2 \<and> get_total_vehicles_parked lot_dup = 1 \<and>
   length (get_occupied_slots (snd (remove_vehicle lot_dup ''ABC123'' 10))) = 1 \<and>
   get_total_vehicles_parked (snd (remove_vehicle lot_dup ''ABC123'' 10)) = 0"
  by code_simp

section \<open>Emergency clear\<close>

lemma is_empty_no_vehicles:
  assumes "lot_inv lot" "is_empty lot"
  shows "vehicles lot = []"
proof -
  have "filter (\<lambda>slot. slot \<noteq> None) (slots lot) = []"
    using assms(2) unfolding is_empty_def list_all_iff by (auto simp: filter_empty_conv)
  then have "length (vehicles lot) = 0" using assms(1) unfolding lot_inv_def by simp
  then show ?thesis by simp
qed

text \<open>
  On a consistent lot the confirmed handler terminates and leaves the lot empty, with the
  capacity and the admission counter as they were.
\<close>

lemma emergency_clear_consistent:
  assumes "lot_inv lot"
  shows "\<exists>lot'. emergency_clear lot True clock = Some ((), lot') \<and>
           is_empty lot' \<and> vehicles lot' = [] \<and> lot_inv lot' \<and>
           capacity lot' = capacity lot \<and> total_vehicles lot' = total_vehicles lot"
proof (cases "is_empty lot")
  case True
  then show ?thesis
    using assms is_empty_no_vehicles[OF assms True] by (simp add: emergency_clear_def)
next
  case False
  from clear_loop_terminates[OF assms, of clock 0] obtain lot' where
    l: "clear_loop clock 0 lot = Some lot'" "lot_inv lot'" "vehicles lot' = []"
       "capacity lot' = capacity lot" "total_vehicles lot' = total_vehicles lot"
    by blast
  have "is_empty lot'" using l(2,3) by (rule lot_inv_no_vehicles_empty)
  then show ?thesis using False l by (simp add: emergency_clear_def)
qed

text \<open>
  Claim C3 does not hold of the code. The loop of \<^verbatim>\<open>emergency_clear\<close> releases each
  vehicle with \<^verbatim>\<open>remove_vehicle\<close>, which computes the fee and adds it to the revenue,
  although the dialog of the handler says that fees will not be collected: clearing car
  \<open>A\<close> and bike \<open>B\<close> one hour after their arrival takes the revenue from 0 to 3. The
  handler returns nothing.
\<close>

theorem emergency_clear_accrues_fees:
  "revenue lot_two = 0 \<and>
   emergency_clear lot_two True (\<lambda>k. 3600000000) =
     Some ((), \<lparr>capacity = 3, slots = [None, None, None], vehicles = [],
                hourly_rate = 2, revenue = 3, total_vehicles = 2\<rparr>)"
proof -
  let ?c = "\<lambda>k::nat. 3600000000 :: int"
  define l1 where "l1 = snd (remove_vehicle lot_two ''A'' 3600000000)"
  define l2 where "l2 = snd (remove_vehicle l1 ''B'' 3600000000)"
  have v0: "vehicles lot_two = [(''A'', parked car_A 1 0), (''B'', parked bike_B 2 0)]"
    by code_simp
  have v1: "vehicles l1 = [(''B'', parked bike_B 2 0)]"
    unfolding l1_def by code_simp
  have v2: "vehicles l2 = []"
    unfolding l2_def l1_def by code_simp
  have l2_value: "l2 = \<lparr>capacity = 3, slots = [None, None, None], vehicles = [],
                hourly_rate = 2, revenue = 3, total_vehicles = 2\<rparr>"
    unfolding l2_def l1_def by code_simp
  have "clear_loop ?c 0 lot_two = clear_loop ?c (Suc 0) l1"
    by (subst clear_loop.simps) (simp add: v0 l1_def)
  also have "\<dots> = clear_loop ?c (Suc (Suc 0)) l2"
    by (subst clear_loop.simps) (simp add: v1 l2_def)
  also have "\<dots> = Some l2"
    by (subst clear_loop.simps) (simp add: v2)
  finally have loop: "clear_loop ?c 0 lot_two = Some l2" .
  have ne: "\<not> is_empty lot_two" by code_simp
  have rev: "revenue lot_two = 0" by code_simp
  show ?thesis
    using ne rev by (simp add: emergency_clear_def loop l2_value)
qed

text \<open>
  On the lot in which \<open>ABC123\<close> was admitted twice the loop ends with the index empty and
  slot 1 still occupied.
\<close>

lemma emergency_clear_after_duplicate:
  "emergency_clear lot_dup True (\<lambda>k. 3600000005) =
     Some ((), \<lparr>capacity = 3,
                slots = [Some (parked (Vehicle_init ''ABC123'' CAR ''John Smith'' ''#3498db'') 1 0),
                         None, None],
                vehicles = [], hourly_rate = 2, revenue = 1, total_vehicles = 2\<rparr>)"
proof -
  let ?c = "\<lambda>k::nat. 3600000005 :: int"
  define l1 where "l1 = snd (remove_vehicle lot_dup ''ABC123'' 3600000005)"
  have v0: "vehicles lot_dup =
      [(''ABC123'', parked (Vehicle_init ''ABC123'' BIKE ''Jane Doe'' ''#e74c3c'') 2 5)]"
    by code_simp
  have v1: "vehicles l1 = []"
    unfolding l1_def by code_simp
  have l1_value: "l1 = \<lparr>capacity = 3,
                slots = [Some (parked (Vehicle_init ''ABC123'' CAR ''John Smith'' ''#3498db'') 1 0),
                         None, None],
                vehicles = [], hourly_rate = 2, revenue = 1, total_vehicles = 2\<rparr>"
    unfolding l1_def by code_simp
  have "clear_loop ?c 0 lot_dup = clear_loop ?c (Suc 0) l1"
    by (subst clear_loop.simps) (simp add: v0 l1_def)
  also have "\<dots> = Some l1"
    by (subst clear_loop.simps) (simp add: v1)
  finally have loop: "clear_loop ?c 0 lot_dup = Some l1" .
  have ne: "\<not> is_empty lot_dup" by code_simp
  show ?thesis
    using ne by (simp add: emergency_clear_def loop l1_value)
qed

section \<open>Construction, reset and slot status\<close>

text \<open>
  Claim C6, as the code has it. The constructor checks nothing: for every capacity below
  1 it returns a lot with that capacity and no slot, which is full and empty at once and
  on which every admission raises \<^verbatim>\<open>ParkingLotFullError\<close> and changes nothing.
\<close>

theorem init_without_capacity_check:
  assumes "cap < 1"
  shows "ParkingLot_new cap = Inr (ParkingLot_init cap) \<and>
         capacity (ParkingLot_init cap) = cap \<and>
         slots (ParkingLot_init cap) = [] \<and>
         vehicles (ParkingLot_init cap) = [] \<and>
         is_full (ParkingLot_init cap) \<and> is_empty (ParkingLot_init cap) \<and>
         park_vehicle (ParkingLot_init cap) v now = (Inl ParkingLotFullError, ParkingLot_init cap)"
proof -
  have "slots (ParkingLot_init cap) = []" using assms by (simp add: ParkingLot_init_def)
  then have "is_full (ParkingLot_init cap)" "is_empty (ParkingLot_init cap)"
    by (simp_all add: is_full_def is_empty_def)
  then show ?thesis
    using assms by (simp add: ParkingLot_new_def park_vehicle_full) (simp add: ParkingLot_init_def)
qed

theorem init_without_capacity_check_witness:
  "ParkingLot_new (- 2) =
     Inr \<lparr>capacity = - 2, slots = [], vehicles = [], hourly_rate = 2, revenue = 0,
          total_vehicles = 0\<rparr> \<and>
   fst (park_vehicle (ParkingLot_init (- 2)) car_A 0) = Inl ParkingLotFullError"
proof -
  have h: "(- 2 :: int) < 1" by simp
  from init_without_capacity_check[OF h, of car_A 0] show ?thesis
    by (simp add: ParkingLot_init_def)
qed

text \<open>Constructing a lot of capacity 0 returns a lot.\<close>

theorem init_zero_capacity_counterexample:
  "ParkingLot_new 0 =
     Inr \<lparr>capacity = 0, slots = [], vehicles = [], hourly_rate = 2, revenue = 0,
          total_vehicles = 0\<rparr>"
  by (simp add: ParkingLot_new_def ParkingLot_init_def)

text \<open>
  Claim C7. \<^verbatim>\<open>reset\<close> empties every slot and the identifier index; the revenue, the
  admission counter and the capacity keep their values.
\<close>

theorem reset_keeps_counters:
  "slots (reset lot) = replicate (nat (capacity lot)) None \<and>
   is_empty (reset lot) \<and>
   vehicles (reset lot) = [] \<and>
   revenue (reset lot) = revenue lot \<and>
   total_vehicles (reset lot) = total_vehicles lot \<and>
   capacity (reset lot) = capacity lot"
  by (simp add: reset_def is_empty_def list_all_iff)

text \<open>
  Claim C8. On a lot whose slot table has \<open>capacity\<close> cells \<^verbatim>\<open>get_slot_status\<close> never
  fails: for a slot number from 1 to \<open>capacity\<close> it returns the content of that cell,
  for every other integer it returns \<^verbatim>\<open>None\<close>.
\<close>

theorem get_slot_status_total:
  assumes "length (slots lot) = nat (capacity lot)"
  shows "get_slot_status lot n =
           Inr (if 1 \<le> n \<and> n \<le> capacity lot then slots lot ! nat (n - 1) else None)"
proof (cases "1 \<le> n \<and> n \<le> capacity lot")
  case True
  then have "0 \<le> n - 1" "n - 1 < int (length (slots lot))" using assms by simp_all
  then show ?thesis using True by (simp add: get_slot_status_def py_getitem_in_range)
next
  case False
  then show ?thesis by (auto simp add: get_slot_status_def)
qed

theorem get_slot_status_total_witness:
  "get_slot_status lot_two 1 = Inr (Some (parked car_A 1 0)) \<and>
   get_slot_status lot_two 3 = Inr None \<and>
   get_slot_status lot_two 0 = Inr None \<and>
   get_slot_status lot_two 4 = Inr None \<and>
   get_slot_status lot_two (- 1) = Inr None"
proof -
  have len: "length (slots lot_two) = nat (capacity lot_two)" by code_simp
  have cap: "capacity lot_two = 3" by code_simp
  have sl: "slots lot_two = [Some (parked car_A 1 0), Some (parked bike_B 2 0), None]"
    by code_simp
  show ?thesis
    using get_slot_status_total[OF len, of 1] get_slot_status_total[OF len, of 3]
      get_slot_status_total[OF len, of 0] get_slot_status_total[OF len, of 4]
      get_slot_status_total[OF len, of "- 1"]
    by (simp add: cap sl)
qed

end
